theory Spec2Isabelle
  imports Complex_Main "HOL-Library.AList" "HOL-Library.Product_Lexorder"
begin

section \<open>Python values\<close>

text \<open>
  A Python \<open>str\<close> is a sequence of Unicode code points; \<open>len\<close> and slicing count code
  points, so a string is modelled as the list of its code points.
\<close>

type_synonym pystr = "nat list"

definition ascii :: "string \<Rightarrow> pystr" where
  "ascii s = map of_char s"

text \<open>\<open>s.replace(old, new)\<close> for one-character \<open>old\<close> and \<open>new\<close>.\<close>

definition replace_char :: "nat \<Rightarrow> nat \<Rightarrow> pystr \<Rightarrow> pystr" where
  "replace_char old new s = map (\<lambda>c. if c = old then new else c) s"

section \<open>ExcelHandler.build_sheet_name\<close>

text \<open>The tuple \<open>(":", "\\", "/", "?", "*", "[", "]")\<close> of the source, as code points.\<close>

definition bad_chars :: "nat list" where
  "bad_chars = [58, 92, 47, 63, 42, 91, 93]"

definition underscore :: nat where
  "underscore = 95"

text \<open>
  \<^verbatim>\<open>base = f"{ticker}_{name_ja}" if name_ja else ticker\<close>: an empty \<open>name_ja\<close> is falsy.
  The loop replaces one bad character after the other; the result is cut to 31 code points.
\<close>

definition build_sheet_name :: "pystr \<Rightarrow> pystr \<Rightarrow> pystr" where
  "build_sheet_name ticker name_ja =
     (let base = (if name_ja \<noteq> [] then ticker @ [underscore] @ name_ja else ticker);
          base = fold (\<lambda>bad b. replace_char bad underscore b) bad_chars base
      in take 31 base)"

text \<open>
  The resolver as the specification words it: every occurrence of one of the seven
  characters becomes an underscore, and the result is truncated after the substitution.
\<close>

definition spec_identifier :: "pystr \<Rightarrow> pystr \<Rightarrow> pystr" where
  "spec_identifier code name =
     take 31 (map (\<lambda>c. if c \<in> set bad_chars then underscore else c)
                  (if name = [] then code else code @ [underscore] @ name))"

section \<open>Cell values\<close>

text \<open>
  A \<open>datetime.date\<close> is compared by year, month and day: a triple in lexicographic
  order. A float is kept as an opaque value: the program only stores floats and tests
  their type and truth value.
\<close>

type_synonym date = "nat \<times> nat \<times> nat"

datatype pyfloat = Finite real | NaN | PosInf | NegInf

text \<open>
  What a cell's \<open>value\<close> can be: \<open>None\<close> (an empty cell), a bool, an int, a float, a
  string, a \<open>date\<close>, a \<open>datetime\<close> (date and time of day) or a \<open>time\<close>.
\<close>

datatype pyval =
    VNone
  | VBool bool
  | VInt int
  | VFloat pyfloat
  | VStr pystr
  | VDate date
  | VDateTime date nat
  | VTime nat

text \<open>Python truth value, as \<^verbatim>\<open>if not raw_val\<close> tests it.\<close>

fun truthy :: "pyval \<Rightarrow> bool" where
  "truthy VNone = False"
| "truthy (VBool b) = b"
| "truthy (VInt i) = (i \<noteq> 0)"
| "truthy (VFloat f) = (f \<noteq> Finite 0)"
| "truthy (VStr s) = (s \<noteq> [])"
| "truthy (VDate d) = True"
| "truthy (VDateTime d t) = True"
| "truthy (VTime t) = True"

text \<open>
  The date key of a first-column value (lines 252-263). The parameter \<open>strptime\<close> stands
  for \<^verbatim>\<open>datetime.strptime(s, "%Y-%m-%d").date()\<close> of the standard library, \<open>None\<close> where it
  raises (the bare \<^verbatim>\<open>except: pass\<close>). \<^verbatim>\<open>raw_val.replace("/", "-").split(" ")[0]\<close> is the
  text before the first space, slashes turned into dashes.
\<close>

definition date_key :: "(pystr \<Rightarrow> date option) \<Rightarrow> pyval \<Rightarrow> date option" where
  "date_key strptime raw_val =
     (case raw_val of
        VDateTime d t \<Rightarrow> Some d
      | VDate d \<Rightarrow> Some d
      | VStr s \<Rightarrow> strptime (takeWhile (\<lambda>c. c \<noteq> 32) (replace_char 47 45 s))
      | _ \<Rightarrow> None)"

section \<open>The worksheet\<close>

text \<open>
  openpyxl keeps the cells of a worksheet in a dictionary from (row, column) to the
  cell. Only the value of a cell is modelled; fonts, fills, widths and number formats are
  left out.
\<close>

type_synonym coord = "nat \<times> nat"
type_synonym cells = "(coord \<times> pyval) list"

text \<open>The value read at a coordinate: \<open>None\<close> where no cell exists.\<close>

definition cell_value :: "cells \<Rightarrow> coord \<Rightarrow> pyval" where
  "cell_value cs rc = (case map_of cs rc of None \<Rightarrow> VNone | Some v \<Rightarrow> v)"

text \<open>\<open>Worksheet.max_row\<close> and \<open>Worksheet.max_column\<close>: 1 for a sheet without cells.\<close>

definition max_row :: "cells \<Rightarrow> nat" where
  "max_row cs = (case map (\<lambda>(rc, v). fst rc) cs of [] \<Rightarrow> 1 | r # rs \<Rightarrow> fold max rs r)"

definition max_column :: "cells \<Rightarrow> nat" where
  "max_column cs = (case map (\<lambda>(rc, v). snd rc) cs of [] \<Rightarrow> 1 | c # rest \<Rightarrow> fold max rest c)"

text \<open>\<open>Worksheet._get_cell\<close>: a cell that does not exist is created, empty.\<close>

definition get_cell :: "coord \<Rightarrow> cells \<Rightarrow> cells" where
  "get_cell rc cs = (case map_of cs rc of None \<Rightarrow> cs @ [(rc, VNone)] | Some v \<Rightarrow> cs)"

text \<open>
  \<open>Worksheet.cell(row, column, value)\<close>: the cell is fetched (and created when absent);
  its value is assigned only when \<open>value is not None\<close>.
\<close>

definition ws_cell :: "cells \<Rightarrow> nat \<Rightarrow> nat \<Rightarrow> pyval \<Rightarrow> cells" where
  "ws_cell cs row column v =
     (let cs' = get_cell (row, column) cs
      in if v \<noteq> VNone then AList.update (row, column) v cs' else cs')"

text \<open>
  \<open>Worksheet.iter_rows(min_row, values_only=True)\<close>: one tuple per row from \<open>min_row\<close> to
  \<open>max_row\<close>, each over the columns 1 to \<open>max_column\<close>. Reading a cell creates it, so
  the iteration also leaves (empty) cells behind.
\<close>

definition row_coords :: "nat \<Rightarrow> nat \<Rightarrow> coord list" where
  "row_coords mc r = map (\<lambda>c. (r, c)) [1..<Suc mc]"

definition iter_rows_values :: "cells \<Rightarrow> nat \<Rightarrow> pyval list list" where
  "iter_rows_values cs min_row =
     map (\<lambda>r. map (cell_value cs) (row_coords (max_column cs) r)) [min_row..<Suc (max_row cs)]"

definition iter_rows_cells :: "cells \<Rightarrow> nat \<Rightarrow> cells" where
  "iter_rows_cells cs min_row =
     fold get_cell (concat (map (row_coords (max_column cs)) [min_row..<Suc (max_row cs)])) cs"

text \<open>
  \<open>Worksheet.delete_rows(idx, amount)\<close>: the rows \<open>idx\<close> to \<open>idx + amount - 1\<close> are
  removed and the rows below move up by \<open>amount\<close>.
\<close>

definition delete_rows :: "cells \<Rightarrow> nat \<Rightarrow> nat \<Rightarrow> cells" where
  "delete_rows cs idx amount =
     map (\<lambda>((r, c), v). ((if idx + amount \<le> r then r - amount else r, c), v))
       (filter (\<lambda>((r, c), v). r < idx \<or> idx + amount \<le> r) cs)"

section \<open>The fetched record\<close>

text \<open>
  One row of the data frame that \<open>fetch_stock_data\<close> returns: the index is a timestamp
  (a date and a time of day, the time zone already removed), the columns are floats.
  \<open>MA5\<close> and \<open>MA25\<close> are the rolling means of pandas, which are \<open>NaN\<close> for the first 4
  and 24 rows of the fetched window.
\<close>

record frow =
  dt_idx :: "date \<times> nat"
  Close :: pyfloat
  Open :: pyfloat
  High :: pyfloat
  Low :: pyfloat
  MA5 :: pyfloat
  MA25 :: pyfloat

text \<open>Lines 272-281: \<open>d = dt_idx.date()\<close> and the list \<open>new_row\<close>.\<close>

definition new_row :: "frow \<Rightarrow> pyval list" where
  "new_row row =
     [VDate (fst (dt_idx row)), VFloat (Close row), VFloat (Open row), VFloat (High row),
      VFloat (Low row), VFloat (MA5 row), VFloat (MA25 row)]"

section \<open>ExcelHandler.merge_and_write_data\<close>

text \<open>
  \<open>data_map\<close> is a dictionary from dates to rows: an association list, where assigning
  to a key replaces the entry or appends a new one.

  Step 1 (lines 246-268). A row whose first value is falsy or has no date key is
  skipped; otherwise the row, its first value replaced by the key, is stored under the
  key. A tuple of \<open>iter_rows\<close> is never empty (\<open>max_column\<close> is at least 1), so \<open>row[0]\<close>
  cannot fail; the empty case leaves the dictionary as it is.
\<close>

fun load_existing ::
  "(pystr \<Rightarrow> date option) \<Rightarrow> pyval list list \<Rightarrow> (date \<times> pyval list) list
     \<Rightarrow> (date \<times> pyval list) list" where
  "load_existing strptime [] data_map = data_map"
| "load_existing strptime ([] # rows) data_map = load_existing strptime rows data_map"
| "load_existing strptime ((raw_val # rest) # rows) data_map =
     (if \<not> truthy raw_val then load_existing strptime rows data_map
      else case date_key strptime raw_val of
             None \<Rightarrow> load_existing strptime rows data_map
           | Some d_key \<Rightarrow>
               load_existing strptime rows (AList.update d_key (VDate d_key # rest) data_map))"

text \<open>Step 2 (lines 271-282): every fetched row is stored under its date.\<close>

fun merge_fetched :: "frow list \<Rightarrow> (date \<times> pyval list) list \<Rightarrow> (date \<times> pyval list) list" where
  "merge_fetched [] data_map = data_map"
| "merge_fetched (row # df) data_map =
     merge_fetched df (AList.update (fst (dt_idx row)) (new_row row) data_map)"

text \<open>
  Step 3 (lines 285-295). Lines 293-294 set the number format of a numeric cell, which
  is a style and not modelled. \<open>write_values\<close> is the inner loop over \<open>enumerate(values, 1)\<close>,
  \<open>write_rows\<close> the outer loop over the sorted dates; it returns the cells and
  \<open>current_row\<close>. Every date of \<open>sorted_dates\<close> is a key of \<open>data_map\<close>, so the lookup
  \<open>data_map[d]\<close> finds its row.
\<close>

fun write_values :: "cells \<Rightarrow> nat \<Rightarrow> nat \<Rightarrow> pyval list \<Rightarrow> cells" where
  "write_values cs current_row col_idx [] = cs"
| "write_values cs current_row col_idx (val # vals) =
     write_values (ws_cell cs current_row col_idx val) current_row (Suc col_idx) vals"

fun write_rows :: "(date \<times> pyval list) list \<Rightarrow> date list \<Rightarrow> cells \<Rightarrow> nat \<Rightarrow> cells \<times> nat" where
  "write_rows data_map [] cs current_row = (cs, current_row)"
| "write_rows data_map (d # ds) cs current_row =
     write_rows data_map ds (write_values cs current_row 1 (the (map_of data_map d)))
       (Suc current_row)"

text \<open>The merged dictionary of steps 1 and 2, and the whole function on the cells.\<close>

definition merged_map ::
  "(pystr \<Rightarrow> date option) \<Rightarrow> cells \<Rightarrow> frow list \<Rightarrow> (date \<times> pyval list) list" where
  "merged_map strptime cs df = merge_fetched df (load_existing strptime (iter_rows_values cs 4) [])"

definition merge_and_write_data :: "(pystr \<Rightarrow> date option) \<Rightarrow> cells \<Rightarrow> frow list \<Rightarrow> cells" where
  "merge_and_write_data strptime cs df =
     (let data_map = merged_map strptime cs df;
          sorted_dates = sort (map fst data_map);
          (cs', current_row) = write_rows data_map sorted_dates (iter_rows_cells cs 4) 4
      in if max_row cs' \<ge> current_row
         then delete_rows cs' current_row (max_row cs' - current_row + 1)
         else cs')"

text \<open>
  The first column of the body as the sheet holds it: the values of the rows 4 to
  \<open>max_row\<close>.
\<close>

definition body_dates :: "cells \<Rightarrow> pyval list" where
  "body_dates cs = map (\<lambda>r. cell_value cs (r, 1)) [4..<Suc (max_row cs)]"


section \<open>Tables and charts of a worksheet\<close>

text \<open>
  A cell range: first column, first row, last column, last row. The table reference
  \<^verbatim>\<open>f"A3:G{max_row}"\<close> is the range of the columns 1 to 7 and the rows 3 to \<open>max_row\<close>;
  \<^verbatim>\<open>Reference(ws, min_col=c, min_row=r, max_row=m)\<close> is the range of the one column \<open>c\<close>.
\<close>

datatype cell_range = CellRange nat nat nat nat

text \<open>A table definition: its name and its range; the table style is left out.\<close>

record table =
  displayName :: pystr
  ref :: cell_range

text \<open>
  The title of a chart object. openpyxl declares \<open>ChartBase.title\<close> with a descriptor:
  a string assigned to it is wrapped into a \<open>Title\<close> object (\<open>title_maker\<close>), and reading
  the attribute gives \<open>None\<close> or that \<open>Title\<close> object, never a \<open>str\<close>.
\<close>

datatype chart_title = NoTitle | Title pystr

text \<open>
  A line chart: its title, the references added as data series, the categories and the
  anchor cell. Style, size and axis titles are left out.
\<close>

record chart =
  title :: chart_title
  series :: "cell_range list"
  categories :: "cell_range option"
  anchor :: pystr

text \<open>
  A worksheet: its cells, its tables (\<open>ws.tables.values()\<close>, in insertion order) and its
  charts (\<open>ws._charts\<close>). \<open>merge_and_write_data\<close> reads and writes the cells only, which is
  why it is defined on them.
\<close>

record worksheet =
  cells :: cells
  tables :: "table list"
  charts :: "chart list"

section \<open>ExcelHandler.ensure_table_and_chart\<close>

datatype py_error = IndexError | ValueError

text \<open>
  \<^verbatim>\<open>c.title != chart_title\<close> (line 332): the left operand is \<open>None\<close> or a \<open>Title\<close> object, the
  right one a \<open>str\<close>. A \<open>Title\<close> is equal only to an object of its own class
  (\<open>Serialisable.__eq__\<close>), and \<open>None\<close> is not a string, so the operands always differ.
\<close>

fun title_differs :: "chart_title \<Rightarrow> pystr \<Rightarrow> bool" where
  "title_differs NoTitle s = True"
| "title_differs (Title text) s = True"

text \<open>\<^verbatim>\<open>found_tbl.ref = table_ref\<close> on the first table with the name.\<close>

fun set_ref_of_first :: "pystr \<Rightarrow> cell_range \<Rightarrow> table list \<Rightarrow> table list" where
  "set_ref_of_first name r [] = []"
| "set_ref_of_first name r (tbl # tbls) =
     (if displayName tbl = name then tbl\<lparr>ref := r\<rparr> # tbls
      else tbl # set_ref_of_first name r tbls)"

definition chart_suffix :: pystr where
  "chart_suffix = [32, 26666, 20385, 25512, 31227]"

text \<open>
  The function (lines 302-351). Two parameters stand for library code: \<open>isdigit\<close> is
  \<open>str.isdigit\<close> on one character, and \<open>duplicate_name\<close> is the workbook's check in
  \<open>Worksheet.add_table\<close>, which raises \<open>ValueError\<close> for a table name the workbook already
  uses. \<open>safe_name[0]\<close> raises \<open>IndexError\<close> for an empty sheet name.
\<close>

definition ensure_table_and_chart ::
  "(nat \<Rightarrow> bool) \<Rightarrow> (pystr \<Rightarrow> bool) \<Rightarrow> worksheet \<Rightarrow> pystr \<Rightarrow> py_error + worksheet" where
  "ensure_table_and_chart isdigit duplicate_name ws sheet_name =
     (let max_row = max_row (cells ws) in
      if max_row < 3 then Inr ws
      else
        let safe_name = replace_char 45 95 (replace_char 46 95 (replace_char 32 95 sheet_name))
        in case safe_name of
             [] \<Rightarrow> Inl IndexError
           | first # _ \<Rightarrow>
               let safe_name = (if isdigit first then ascii ''tbl_'' @ safe_name else safe_name);
                   table_name = take 255 safe_name;
                   table_ref = CellRange 1 3 7 max_row;
                   chart_title = sheet_name @ chart_suffix;
                   new_chart = \<lparr>title = Title chart_title,
                                series = [CellRange 2 3 2 max_row, CellRange 6 3 6 max_row,
                                          CellRange 7 3 7 max_row],
                                categories = Some (CellRange 1 4 1 max_row),
                                anchor = ascii ''I3''\<rparr>;
                   update_charts = (\<lambda>w. w\<lparr>charts :=
                       filter (\<lambda>c. title_differs (title c) chart_title) (charts w) @ [new_chart]\<rparr>)
               in case find (\<lambda>tbl. displayName tbl = table_name) (tables ws) of
                    Some found_tbl \<Rightarrow>
                      Inr (update_charts (ws\<lparr>tables := set_ref_of_first table_name table_ref (tables ws)\<rparr>))
                  | None \<Rightarrow>
                      if duplicate_name table_name then Inl ValueError
                      else Inr (update_charts
                             (ws\<lparr>tables := tables ws @ [\<lparr>displayName = table_name, ref = table_ref\<rparr>]\<rparr>)))"

section \<open>StockLoggerApp.run_logic: the sheet of an instrument\<close>

text \<open>
  Lines 662-669 choose the worksheet of an instrument from the sheet names of the
  workbook: the sheet named \<open>sheet_name\<close> when there is one, else the sheet named by
  the bare ticker (which is renamed to \<open>sheet_name\<close>), else a new sheet created with the
  title \<open>sheet_name\<close>. The rows of the instrument are then merged into that sheet.
\<close>

datatype sheet_choice =
    UseExisting pystr
  | RenameLegacy pystr pystr
  | CreateSheet pystr

definition choose_sheet :: "pystr list \<Rightarrow> pystr \<Rightarrow> pystr \<Rightarrow> sheet_choice" where
  "choose_sheet sheetnames sheet_name ticker =
     (if sheet_name \<in> set sheetnames then UseExisting sheet_name
      else if ticker \<in> set sheetnames then RenameLegacy ticker sheet_name
      else CreateSheet sheet_name)"

section \<open>StockLoggerApp.save_workbook_safely and the end of run_logic\<close>

text \<open>The content of a file, as bytes.\<close>

type_synonym file_content = "nat list"

text \<open>
  What the user interface shows: the status line with the progress value, the log, the
  dialogs shown so far and whether the run button is enabled; and the file at the
  destination path (\<open>None\<close> when there is none). \<open>log_safe\<close>, \<open>status_safe\<close> and
  \<open>finalize_ui\<close> queue their updates on the interface thread, which applies them in
  order.
\<close>

datatype dialog = ShowInfoDone | AskRetryCancelSave

record app =
  disk :: "file_content option"
  status_msg :: pystr
  progress_var :: nat
  log_text :: "pystr list"
  dialogs :: "dialog list"
  btn_run_enabled :: bool

definition log_safe :: "app \<Rightarrow> pystr \<Rightarrow> app" where
  "log_safe st msg = st\<lparr>log_text := log_text st @ [msg]\<rparr>"

text \<open>\<open>status_safe(msg, progress_val=None)\<close>: the progress is set only when a value is given.\<close>

definition status_safe :: "app \<Rightarrow> pystr \<Rightarrow> nat option \<Rightarrow> app" where
  "status_safe st msg progress_val =
     (case progress_val of
        None \<Rightarrow> st\<lparr>status_msg := msg\<rparr>
      | Some p \<Rightarrow> st\<lparr>status_msg := msg, progress_var := p\<rparr>)"

definition finalize_ui :: "app \<Rightarrow> app" where
  "finalize_ui st = st\<lparr>btn_run_enabled := True\<rparr>"

text \<open>
  The texts of lines 675-683 and 722, as code points: the status while saving, the
  status and the log line of a completed run, the status "save cancelled", the log line
  "the save was cancelled", and the prefix of the log line of an error.
\<close>

definition msg_saving :: pystr where
  "msg_saving = [69, 120, 99, 101, 108, 12501, 12449, 12452, 12523, 12434, 20445, 23384,
     12375, 12390, 12356, 12414, 12377, 46, 46, 46]"

definition msg_done :: pystr where
  "msg_done = [23436, 20102, 12375, 12414, 12375, 12383]"

definition msg_all_done :: pystr where
  "msg_all_done = [10004, 32, 20840, 12390, 12398, 20966, 29702, 12364, 23436, 20102, 12375,
     12414, 12375, 12383, 58, 32]"

definition msg_save_cancelled :: pystr where
  "msg_save_cancelled = [20445, 23384, 12461, 12515, 12531, 12475, 12523]"

definition log_save_cancelled :: pystr where
  "log_save_cancelled = [20445, 23384, 12434, 12461, 12515, 12531, 12475, 12523, 12375, 12414,
     12375, 12383, 12290]"

definition msg_error :: pystr where
  "msg_error = [9888, 32, 12456, 12521, 12540, 30330, 29983, 58, 32]"

text \<open>
  One pass through the loop of \<open>save_workbook_safely\<close> meets one outcome of
  \<^verbatim>\<open>wb.save(path)\<close>: the file is written; or the file is exclusively locked, the call
  raises \<open>PermissionError\<close> before anything is written and the user answers the
  retry-or-cancel dialog; or the call raises another exception, with its message and
  whatever it left on the disk.
\<close>

datatype save_outcome =
    Saved
  | Locked bool
  | Failed pystr "file_content option"

text \<open>
  The loop (lines 708-723) runs until a save succeeds, the user cancels, or an exception
  other than \<open>PermissionError\<close> leaves the function; it can run forever, so it is driven
  by the list of the outcomes it meets, and \<open>None\<close> says that the list ended with the
  loop still running. The result is \<open>Inr\<close> of the returned bool or \<open>Inl\<close> of the message
  of the exception.
\<close>

fun save_workbook_safely ::
  "save_outcome list \<Rightarrow> file_content \<Rightarrow> app \<Rightarrow> ((pystr + bool) \<times> app) option" where
  "save_workbook_safely [] content st = None"
| "save_workbook_safely (Saved # rest) content st =
     Some (Inr True, st\<lparr>disk := Some content, dialogs := dialogs st @ [ShowInfoDone]\<rparr>)"
| "save_workbook_safely (Locked retry # rest) content st =
     (let st' = st\<lparr>dialogs := dialogs st @ [AskRetryCancelSave]\<rparr>
      in if \<not> retry then Some (Inr False, log_safe st' log_save_cancelled)
         else save_workbook_safely rest content st')"
| "save_workbook_safely (Failed e left # rest) content st = Some (Inl e, st\<lparr>disk := left\<rparr>)"

text \<open>
  The end of \<open>run_logic\<close> (lines 675-686): the save, the status of its result, the
  handler of \<^verbatim>\<open>except Exception\<close> and the \<^verbatim>\<open>finally\<close> clause.
\<close>

definition finish_run :: "save_outcome list \<Rightarrow> file_content \<Rightarrow> pystr \<Rightarrow> app \<Rightarrow> app option" where
  "finish_run outcomes content excel_path st =
     (case save_workbook_safely outcomes content (status_safe st msg_saving (Some 95)) of
        None \<Rightarrow> None
      | Some (Inr True, st') \<Rightarrow>
          Some (finalize_ui
            (log_safe (status_safe st' msg_done (Some 100)) (msg_all_done @ excel_path)))
      | Some (Inr False, st') \<Rightarrow>
          Some (finalize_ui (status_safe st' msg_save_cancelled (Some 0)))
      | Some (Inl e, st') \<Rightarrow> Some (finalize_ui (log_safe st' (msg_error @ e))))"

section \<open>Example sheets\<close>

text \<open>
  A fetched row for 2024-01-02 at the start of the fetched window: both rolling means
  are \<open>NaN\<close>.
\<close>

definition row_0102 :: frow where
  "row_0102 = \<lparr>dt_idx = ((2024, 1, 2), 0), Close = Finite 100, Open = Finite 101,
      High = Finite 102, Low = Finite 99, MA5 = NaN, MA25 = NaN\<rparr>"

text \<open>
  A body of two rows, for 2024-01-03 and 2024-01-04. The first has no 5-day mean (its
  cell is empty), the second has the 5-day mean 15; neither has a 25-day mean.
\<close>

definition stale_sheet :: cells where
  "stale_sheet =
     [((4, 1), VDate (2024, 1, 3)), ((4, 2), VFloat (Finite 10)), ((4, 3), VFloat (Finite 10)),
      ((4, 4), VFloat (Finite 10)), ((4, 5), VFloat (Finite 10)),
      ((5, 1), VDate (2024, 1, 4)), ((5, 2), VFloat (Finite 20)), ((5, 3), VFloat (Finite 20)),
      ((5, 4), VFloat (Finite 20)), ((5, 5), VFloat (Finite 20)), ((5, 6), VFloat (Finite 15))]"

text \<open>
  A body of three rows: two rows for 2024-01-03 and a row whose first cell is the text
  \<open>n/a\<close>.
\<close>

definition shrink_sheet :: cells where
  "shrink_sheet =
     [((4, 1), VDate (2024, 1, 3)), ((4, 2), VFloat (Finite 10)),
      ((5, 1), VDate (2024, 1, 3)), ((5, 2), VFloat (Finite 11)),
      ((6, 1), VStr (ascii ''n/a'')), ((6, 2), VFloat (Finite 12))]"

text \<open>\<open>str.isdigit\<close> on the ASCII characters, for the examples.\<close>

definition ascii_isdigit :: "nat \<Rightarrow> bool" where
  "ascii_isdigit c = (48 \<le> c \<and> c \<le> 57)"

text \<open>
  A worksheet with the title cell and the header row 3 but no data row (short ASCII
  texts stand for the seven header texts), and one with the header and one data row.
\<close>

definition header_only_sheet :: worksheet where
  "header_only_sheet =
     \<lparr>cells = [((1, 1), VStr (ascii ''7203.T : X'')),
               ((3, 1), VStr (ascii ''date'')), ((3, 2), VStr (ascii ''close'')),
               ((3, 3), VStr (ascii ''open'')), ((3, 4), VStr (ascii ''high'')),
               ((3, 5), VStr (ascii ''low'')), ((3, 6), VStr (ascii ''ma5'')),
               ((3, 7), VStr (ascii ''ma25''))],
      tables = [], charts = []\<rparr>"

definition one_row_sheet :: worksheet where
  "one_row_sheet = header_only_sheet\<lparr>cells := cells header_only_sheet @
     [((4, 1), VDate (2024, 1, 2)), ((4, 2), VFloat (Finite 100))]\<rparr>"

section \<open>Auxiliary definitions for the proofs\<close>

text \<open>
  Assigning a list of key-value pairs to a dictionary, one after the other: the form both
  loops over \<open>data_map\<close> are brought into for the proofs.
\<close>

definition assign_all :: "('k \<times> 'v) list \<Rightarrow> ('k \<times> 'v) list \<Rightarrow> ('k \<times> 'v) list" where
  "assign_all kvs dm = fold (\<lambda>(k, v). AList.update k v) kvs dm"

text \<open>The assignments that step 1 makes to \<open>data_map\<close>, in the order of the rows.\<close>

fun keyed_rows :: "(pystr \<Rightarrow> date option) \<Rightarrow> pyval list list \<Rightarrow> (date \<times> pyval list) list" where
  "keyed_rows P [] = []"
| "keyed_rows P ([] # rows) = keyed_rows P rows"
| "keyed_rows P ((raw_val # rest) # rows) =
     (if \<not> truthy raw_val then keyed_rows P rows
      else case date_key P raw_val of
             None \<Rightarrow> keyed_rows P rows
           | Some d \<Rightarrow> (d, VDate d # rest) # keyed_rows P rows)"

text \<open>The assignments that step 2 makes.\<close>

definition fetched_rows :: "frow list \<Rightarrow> (date \<times> pyval list) list" where
  "fetched_rows df = map (\<lambda>row. (fst (dt_idx row), new_row row)) df"

text \<open>\<^verbatim>\<open>sorted_dates = sorted(data_map.keys())\<close> of a call, and the row written for its \<open>i\<close>-th date.\<close>

definition sorted_dates :: "(pystr \<Rightarrow> date option) \<Rightarrow> cells \<Rightarrow> frow list \<Rightarrow> date list" where
  "sorted_dates P cs df = sort (map fst (merged_map P cs df))"

definition merged_row :: "(pystr \<Rightarrow> date option) \<Rightarrow> cells \<Rightarrow> frow list \<Rightarrow> nat \<Rightarrow> pyval list" where
  "merged_row P cs df i = the (map_of (merged_map P cs df) (sorted_dates P cs df ! i))"

section \<open>Facts about build_sheet_name\<close>

lemma fold_replace_char:
  "fold (\<lambda>bad b. replace_char bad u b) bads s =
     map (\<lambda>c. fold (\<lambda>bad x. if x = bad then u else x) bads c) s"
  by (induction bads arbitrary: s) (simp_all add: replace_char_def comp_def)

lemma replace_all_bad:
  "fold (\<lambda>bad x. if x = bad then underscore else x) bad_chars c =
     (if c \<in> set bad_chars then underscore else c)"
  by (simp add: bad_chars_def underscore_def)

lemma build_sheet_name_spec: "build_sheet_name ticker name_ja = spec_identifier ticker name_ja"
  by (simp add: build_sheet_name_def spec_identifier_def Let_def fold_replace_char
      replace_all_bad)

text \<open>
  C6. For every instrument code and display name the identifier has at most 31 code
  points, contains none of the seven forbidden characters, and is the substitution of
  the specification followed by the truncation. The function reads nothing but its two
  arguments, so equal inputs give equal outputs.
\<close>

theorem build_sheet_name_valid:
  "length (build_sheet_name ticker name_ja) \<le> 31
   \<and> set (build_sheet_name ticker name_ja) \<inter> set bad_chars = {}
   \<and> build_sheet_name ticker name_ja = spec_identifier ticker name_ja"
proof -
  have "set (spec_identifier ticker name_ja) \<inter> set bad_chars = {}"
    by (auto simp: spec_identifier_def bad_chars_def underscore_def dest!: in_set_takeD)
  then show ?thesis
    by (simp add: build_sheet_name_spec) (simp add: spec_identifier_def)
qed

section \<open>Facts about the worksheet operations\<close>

lemma map_of_get_cell:
  "map_of (get_cell rc cs) = (case map_of cs rc of None \<Rightarrow> (map_of cs)(rc \<mapsto> VNone) | Some v \<Rightarrow> map_of cs)"
  by (auto simp: get_cell_def fun_eq_iff map_add_def split: option.splits)

lemma keys_eq_dom: "fst ` set cs = dom (map_of cs)"
  by (simp add: dom_map_of_conv_image_fst)

lemma keys_get_cell: "fst ` set (get_cell rc cs) = insert rc (fst ` set cs)"
  unfolding keys_eq_dom by (auto simp: map_of_get_cell split: option.splits if_splits)

lemma cell_value_get_cell: "cell_value (get_cell rc cs) rc' = cell_value cs rc'"
  by (auto simp: cell_value_def map_of_get_cell split: option.splits)

lemma keys_ws_cell: "fst ` set (ws_cell cs r c v) = insert (r, c) (fst ` set cs)"
  using keys_get_cell[of "(r, c)" cs] unfolding keys_eq_dom
  by (auto simp: ws_cell_def Let_def update_conv')

lemma cell_value_ws_cell:
  "cell_value (ws_cell cs r c v) rc = (if rc = (r, c) \<and> v \<noteq> VNone then v else cell_value cs rc)"
  using cell_value_get_cell[of "(r,c)" cs rc]
  by (auto simp: ws_cell_def Let_def cell_value_def update_conv')

lemma keys_write_values:
  "fst ` set (write_values cs r c vs) = fst ` set cs \<union> {(r, c') | c'. c \<le> c' \<and> c' < c + length vs}"
proof (induction vs arbitrary: cs c)
  case Nil then show ?case by auto
next
  case (Cons v vs)
  have "{(r, c') | c'. Suc c \<le> c' \<and> c' < Suc c + length vs} \<union> {(r, c)}
        = {(r, c') | c'. c \<le> c' \<and> c' < c + length (v # vs)}"
    by (auto simp: Suc_le_eq le_less)
  then show ?case by (simp add: Cons.IH keys_ws_cell) blast
qed

lemma cell_value_write_values:
  "cell_value (write_values cs r c vs) (r', c') =
     (if r' = r \<and> c \<le> c' \<and> c' < c + length vs \<and> vs ! (c' - c) \<noteq> VNone
      then vs ! (c' - c) else cell_value cs (r', c'))"
proof (induction vs arbitrary: cs c)
  case Nil then show ?case by auto
next
  case (Cons v vs)
  show ?case
  proof (cases "c < c'")
    case True
    then have "c' - c = Suc (c' - Suc c)" by simp
    with True show ?thesis by (simp add: Cons.IH cell_value_ws_cell Suc_le_eq)
  next
    case False
    then show ?thesis by (auto simp: Cons.IH cell_value_ws_cell)
  qed
qed

lemma snd_write_rows: "snd (write_rows dm ds cs r) = r + length ds"
  by (induction ds arbitrary: cs r) simp_all

lemma keys_write_rows:
  "fst ` set (fst (write_rows dm ds cs r)) =
     fst ` set cs \<union> {(r', c'). r \<le> r' \<and> r' < r + length ds \<and> 1 \<le> c'
                           \<and> c' \<le> length (the (map_of dm (ds ! (r' - r))))}"
proof (induction ds arbitrary: cs r)
  case Nil then show ?case by auto
next
  case (Cons d ds)
  have *: "\<And>r'. r < r' \<Longrightarrow> r' - r = Suc (r' - Suc r)" by simp
  show ?case
    apply (simp add: Cons.IH keys_write_values)
    apply (rule set_eqI)
    apply (case_tac x)
    subgoal for x r' c'
      apply (cases "r' = r")
       apply (auto simp: Suc_le_eq * )
      done
    done
qed

lemma cell_value_write_rows:
  "cell_value (fst (write_rows dm ds cs r)) (r', c') =
     (if r \<le> r' \<and> r' < r + length ds \<and> 1 \<le> c'
         \<and> c' \<le> length (the (map_of dm (ds ! (r' - r))))
         \<and> the (map_of dm (ds ! (r' - r))) ! (c' - 1) \<noteq> VNone
      then the (map_of dm (ds ! (r' - r))) ! (c' - 1) else cell_value cs (r', c'))"
proof (induction ds arbitrary: cs r)
  case Nil then show ?case by auto
next
  case (Cons d ds)
  show ?case
  proof (cases "r < r'")
    case True
    then have "r' - r = Suc (r' - Suc r)" by simp
    with True show ?thesis
      by (simp add: Cons.IH cell_value_write_values Suc_le_eq)
  next
    case False
    then show ?thesis
      by (auto simp: Cons.IH cell_value_write_values Suc_le_eq less_Suc_eq_le)
  qed
qed


lemma fold_max_Max: "fold max rs (r::nat) = Max (set (r # rs))"
  by (rule Max.set_eq_fold[symmetric])

lemma case_fold_max:
  "(case map f cs of [] \<Rightarrow> 1 | r # rs \<Rightarrow> fold max rs (r::nat)) = (if cs = [] then 1 else Max (f ` set cs))"
proof (cases cs)
  case Nil then show ?thesis by simp
next
  case (Cons x xs)
  have "fold max (map f xs) (f x) = Max (set (f x # map f xs))" by (rule fold_max_Max)
  also have "set (f x # map f xs) = f ` set cs" using Cons by simp
  finally show ?thesis using Cons by simp
qed

lemma max_row_Max: "max_row cs = (if cs = [] then 1 else Max ((\<lambda>(rc, v). fst rc) ` set cs))"
  unfolding max_row_def by (rule case_fold_max)

lemma max_column_Max: "max_column cs = (if cs = [] then 1 else Max ((\<lambda>(rc, v). snd rc) ` set cs))"
  unfolding max_column_def by (rule case_fold_max)

lemma max_row_ge: "(r, c) \<in> fst ` set cs \<Longrightarrow> r \<le> max_row cs"
  by (force simp: max_row_Max intro!: Max_ge)

lemma max_column_ge: "(r, c) \<in> fst ` set cs \<Longrightarrow> c \<le> max_column cs"
  by (force simp: max_column_Max intro!: Max_ge)

lemma max_row_le:
  assumes "1 \<le> n" and "\<And>r c. (r, c) \<in> fst ` set cs \<Longrightarrow> r \<le> n"
  shows "max_row cs \<le> n"
proof (cases "cs = []")
  case True with assms(1) show ?thesis by (simp add: max_row_Max)
next
  case False
  have "\<And>x. x \<in> (\<lambda>(rc, v). fst rc) ` set cs \<Longrightarrow> x \<le> n"
    using assms(2) by force
  with False show ?thesis by (simp add: max_row_Max)
qed

lemma max_column_le:
  assumes "1 \<le> n" and "\<And>r c. (r, c) \<in> fst ` set cs \<Longrightarrow> c \<le> n"
  shows "max_column cs \<le> n"
proof (cases "cs = []")
  case True with assms(1) show ?thesis by (simp add: max_column_Max)
next
  case False
  have "\<And>x. x \<in> (\<lambda>(rc, v). snd rc) ` set cs \<Longrightarrow> x \<le> n"
    using assms(2) by force
  with False show ?thesis by (simp add: max_column_Max)
qed

lemma delete_trailing:
  "(if max_row cs \<ge> idx then delete_rows cs idx (max_row cs - idx + 1) else cs)
     = filter (\<lambda>((r, c), v). r < idx) cs"
proof -
  have le: "\<And>r c v. ((r, c), v) \<in> set cs \<Longrightarrow> r \<le> max_row cs"
    by (rule max_row_ge) force
  show ?thesis
  proof (cases "max_row cs \<ge> idx")
    case True
    have "filter (\<lambda>((r, c), v). r < idx \<or> idx + (max_row cs - idx + 1) \<le> r) cs
           = filter (\<lambda>((r, c), v). r < idx) cs"
      using True le by (intro filter_cong) (auto dest!: le)
    moreover have "map (\<lambda>((r, c), v). ((if idx + (max_row cs - idx + 1) \<le> r then r - (max_row cs - idx + 1) else r, c), v))
        (filter (\<lambda>((r, c), v). r < idx) cs) = filter (\<lambda>((r, c), v). r < idx) cs"
      by (rule map_idI) auto
    ultimately show ?thesis using True unfolding delete_rows_def by (simp only: if_True)
  next
    case False
    then have "filter (\<lambda>((r, c), v). r < idx) cs = cs"
      using le by (intro filter_True) (auto dest!: le)
    with False show ?thesis by simp
  qed
qed

lemma map_of_filter_rows:
  "map_of (filter (\<lambda>((r, c), v). r < idx) cs) (r', c') = (if r' < idx then map_of cs (r', c') else None)"
  by (induction cs) auto

lemma fold_get_cell_value: "cell_value (fold get_cell rcs cs) rc = cell_value cs rc"
  by (induction rcs arbitrary: cs) (simp_all add: cell_value_get_cell)

lemma fold_get_cell_keys: "fst ` set (fold get_cell rcs cs) = fst ` set cs \<union> set rcs"
  by (induction rcs arbitrary: cs) (auto simp: keys_get_cell)

lemma cell_value_iter_rows_cells: "cell_value (iter_rows_cells cs k) rc = cell_value cs rc"
  by (simp add: iter_rows_cells_def fold_get_cell_value)

lemma keys_iter_rows_cells:
  "fst ` set (iter_rows_cells cs k) =
     fst ` set cs \<union> {(r, c). k \<le> r \<and> r \<le> max_row cs \<and> 1 \<le> c \<and> c \<le> max_column cs}"
proof -
  have "(\<Union>r\<in>{k..<Suc (max_row cs)}. set (row_coords (max_column cs) r))
          = {(r, c). k \<le> r \<and> r \<le> max_row cs \<and> 1 \<le> c \<and> c \<le> max_column cs}"
    by (auto simp: row_coords_def less_Suc_eq_le simp del: upt_Suc)
  then show ?thesis
    by (simp add: iter_rows_cells_def fold_get_cell_keys del: upt_Suc)
qed

section \<open>Facts about merge_and_write_data\<close>

lemma assign_all_Nil [simp]: "assign_all [] dm = dm"
  by (simp add: assign_all_def)

lemma assign_all_Cons [simp]: "assign_all ((k, v) # kvs) dm = assign_all kvs (AList.update k v dm)"
  by (simp add: assign_all_def)

lemma assign_all_append: "assign_all (xs @ ys) dm = assign_all ys (assign_all xs dm)"
  by (simp add: assign_all_def)

lemma map_of_assign_all: "map_of (assign_all kvs dm) = map_of dm ++ map_of (rev kvs)"
proof (induction kvs arbitrary: dm)
  case Nil then show ?case by simp
next
  case (Cons kv kvs)
  obtain k v where kv: "kv = (k, v)" by (cases kv)
  show ?case
    by (simp add: kv Cons.IH update_conv' map_add_upd_left fun_eq_iff map_add_def split: option.splits)
qed

lemma keys_assign_all: "fst ` set (assign_all kvs dm) = fst ` set dm \<union> fst ` set kvs"
  unfolding keys_eq_dom by (simp add: map_of_assign_all keys_eq_dom[symmetric] Un_commute)

lemma distinct_assign_all: "distinct (map fst dm) \<Longrightarrow> distinct (map fst (assign_all kvs dm))"
  by (induction kvs arbitrary: dm) (auto simp: distinct_update)

lemma load_existing_assign: "load_existing P rows dm = assign_all (keyed_rows P rows) dm"
  by (induction P rows dm rule: load_existing.induct) (auto split: option.splits)

lemma merge_fetched_assign: "merge_fetched df dm = assign_all (fetched_rows df) dm"
  by (induction df arbitrary: dm) (simp_all add: fetched_rows_def)

lemma merged_map_assign:
  "merged_map P cs df = assign_all (keyed_rows P (iter_rows_values cs 4) @ fetched_rows df) []"
  by (simp add: merged_map_def load_existing_assign merge_fetched_assign assign_all_append)

lemma distinct_merged_map: "distinct (map fst (merged_map P cs df))"
  by (simp add: merged_map_assign distinct_assign_all)

lemma keyed_rows_nonempty: "(d, vs) \<in> set (keyed_rows P rows) \<Longrightarrow> \<exists>rest. vs = VDate d # rest"
  by (induction P rows rule: keyed_rows.induct) (auto split: if_splits option.splits)

lemma fetched_rows_shape: "(d, vs) \<in> set (fetched_rows df) \<Longrightarrow> \<exists>row \<in> set df. d = fst (dt_idx row) \<and> vs = new_row row"
  by (auto simp: fetched_rows_def)

lemma merged_map_row_shape:
  assumes "map_of (merged_map P cs df) d = Some vs"
  shows "\<exists>rest. vs = VDate d # rest"
proof -
  from assms have "(d, vs) \<in> set (rev (keyed_rows P (iter_rows_values cs 4) @ fetched_rows df))"
    by (auto simp: merged_map_assign map_of_assign_all dest!: map_of_SomeD simp del: rev_append)
  then consider "(d, vs) \<in> set (keyed_rows P (iter_rows_values cs 4))" | "(d, vs) \<in> set (fetched_rows df)"
    by auto
  then show ?thesis
    by cases (auto dest: keyed_rows_nonempty fetched_rows_shape simp: new_row_def)
qed

lemma merge_unfold:
  "merge_and_write_data P cs df =
     filter (\<lambda>((r, c), v). r < 4 + length (sorted_dates P cs df))
       (fst (write_rows (merged_map P cs df) (sorted_dates P cs df) (iter_rows_cells cs 4) 4))"
proof -
  obtain cs' cur where w: "write_rows (merged_map P cs df) (sorted_dates P cs df) (iter_rows_cells cs 4) 4 = (cs', cur)"
    by (cases "write_rows (merged_map P cs df) (sorted_dates P cs df) (iter_rows_cells cs 4) 4")
  have cur: "cur = 4 + length (sorted_dates P cs df)"
    using snd_write_rows[of "merged_map P cs df" "sorted_dates P cs df" "iter_rows_cells cs 4" 4] w by simp
  have "merge_and_write_data P cs df =
      (if max_row cs' \<ge> cur then delete_rows cs' cur (max_row cs' - cur + 1) else cs')"
    using w by (simp add: merge_and_write_data_def sorted_dates_def Let_def)
  also have "\<dots> = filter (\<lambda>((r, c), v). r < cur) cs'" by (rule delete_trailing)
  finally show ?thesis using w cur by simp
qed

lemma cell_value_filter_rows:
  "cell_value (filter (\<lambda>((r, c), v). r < idx) cs) (r', c') = (if r' < idx then cell_value cs (r', c') else VNone)"
  by (simp add: cell_value_def map_of_filter_rows)

lemma keys_filter_rows:
  "fst ` set (filter (\<lambda>((r, c), v). r < idx) cs) = {rc \<in> fst ` set cs. fst rc < idx}"
  by force

lemma merge_cell_value:
  "cell_value (merge_and_write_data P cs df) (r, c) =
     (if 4 + length (sorted_dates P cs df) \<le> r then VNone
      else if 4 \<le> r \<and> 1 \<le> c \<and> c \<le> length (merged_row P cs df (r - 4))
              \<and> merged_row P cs df (r - 4) ! (c - 1) \<noteq> VNone
      then merged_row P cs df (r - 4) ! (c - 1)
      else cell_value cs (r, c))"
  by (simp add: merge_unfold cell_value_filter_rows cell_value_write_rows
      cell_value_iter_rows_cells merged_row_def)

lemma merge_keys:
  "fst ` set (merge_and_write_data P cs df) =
     {(r, c). r < 4 + length (sorted_dates P cs df) \<and>
        ((r, c) \<in> fst ` set cs
         \<or> (4 \<le> r \<and> r \<le> max_row cs \<and> 1 \<le> c \<and> c \<le> max_column cs)
         \<or> (4 \<le> r \<and> 1 \<le> c \<and> c \<le> length (merged_row P cs df (r - 4))))}"
  unfolding merge_unfold keys_filter_rows keys_write_rows keys_iter_rows_cells merged_row_def
  by auto

lemma merge_no_cell_beyond:
  "4 + length (sorted_dates P cs df) \<le> r \<Longrightarrow> map_of (merge_and_write_data P cs df) (r, c) = None"
  by (simp add: merge_unfold map_of_filter_rows)

lemma sorted_dates_props:
  "sorted (sorted_dates P cs df)" "distinct (sorted_dates P cs df)"
  "set (sorted_dates P cs df) = fst ` set (merged_map P cs df)"
  "length (sorted_dates P cs df) = length (merged_map P cs df)"
  by (simp_all add: sorted_dates_def distinct_merged_map)

lemma merged_row_shape:
  assumes "i < length (sorted_dates P cs df)"
  shows "\<exists>rest. merged_row P cs df i = VDate (sorted_dates P cs df ! i) # rest"
proof -
  have "sorted_dates P cs df ! i \<in> fst ` set (merged_map P cs df)"
    using assms sorted_dates_props(3) nth_mem by blast
  then obtain vs where "map_of (merged_map P cs df) (sorted_dates P cs df ! i) = Some vs"
    unfolding keys_eq_dom by auto
  then show ?thesis
    using merged_map_row_shape by (fastforce simp: merged_row_def)
qed

lemma merge_date_column:
  assumes "i < length (sorted_dates P cs df)"
  shows "cell_value (merge_and_write_data P cs df) (4 + i, 1) = VDate (sorted_dates P cs df ! i)"
proof -
  obtain rest where "merged_row P cs df i = VDate (sorted_dates P cs df ! i) # rest"
    using merged_row_shape[OF assms] by blast
  then show ?thesis using assms by (simp add: merge_cell_value)
qed

lemma merge_max_row:
  "max_row (merge_and_write_data P cs df) \<le> 3 + length (sorted_dates P cs df)"
  "sorted_dates P cs df \<noteq> [] \<Longrightarrow> max_row (merge_and_write_data P cs df) = 3 + length (sorted_dates P cs df)"
proof -
  show le: "max_row (merge_and_write_data P cs df) \<le> 3 + length (sorted_dates P cs df)"
    by (rule max_row_le) (auto simp: merge_keys)
  assume ne: "sorted_dates P cs df \<noteq> []"
  let ?n = "length (sorted_dates P cs df)"
  have "?n - 1 < ?n" using ne by simp
  from merged_row_shape[OF this] obtain rest where
    "merged_row P cs df (?n - 1) = VDate (sorted_dates P cs df ! (?n - 1)) # rest" by blast
  then have "(3 + ?n, 1) \<in> fst ` set (merge_and_write_data P cs df)"
    using ne unfolding merge_keys by (cases "sorted_dates P cs df") auto
  then have "3 + ?n \<le> max_row (merge_and_write_data P cs df)" by (rule max_row_ge)
  with le show "max_row (merge_and_write_data P cs df) = 3 + ?n" by simp
qed

lemma keyed_rows_dated:
  assumes "\<And>i. i \<in> set ixs \<Longrightarrow> \<exists>rest. f i = VDate (k i) # rest"
  shows "keyed_rows P (map f ixs) = map (\<lambda>i. (k i, f i)) ixs"
  using assms
proof (induction ixs)
  case Nil then show ?case by simp
next
  case (Cons i ixs)
  then obtain rest where "f i = VDate (k i) # rest" by auto
  with Cons show ?case by (simp add: date_key_def)
qed

lemma body_rows_after_merge:
  "iter_rows_values (merge_and_write_data P cs df) 4 =
     map (\<lambda>i. map (cell_value (merge_and_write_data P cs df))
                 (row_coords (max_column (merge_and_write_data P cs df)) (4 + i)))
       [0..<length (sorted_dates P cs df)]"
proof (cases "sorted_dates P cs df = []")
  case True
  then have "max_row (merge_and_write_data P cs df) \<le> 3"
    using merge_max_row(1)[of P cs df] by simp
  with True show ?thesis by (simp add: iter_rows_values_def)
next
  case False
  let ?n = "length (sorted_dates P cs df)"
  have "[4..<Suc (max_row (merge_and_write_data P cs df))] = [4..<?n + 4]"
    using merge_max_row(2)[OF False] by (simp add: add.commute)
  also have "\<dots> = map (\<lambda>i. i + 4) [0..<?n]" by (simp only: map_add_upt)
  finally show ?thesis by (simp add: iter_rows_values_def comp_def add.commute)
qed

lemma max_column_after_merge:
  assumes "sorted_dates P cs df \<noteq> []"
  shows "1 \<le> max_column (merge_and_write_data P cs df)"
proof -
  have "0 < length (sorted_dates P cs df)" using assms by simp
  from merged_row_shape[OF this] obtain rest where
    "merged_row P cs df 0 = VDate (sorted_dates P cs df ! 0) # rest" by blast
  then have "(4, 1) \<in> fst ` set (merge_and_write_data P cs df)"
    using assms unfolding merge_keys by auto
  then show ?thesis by (rule max_column_ge)
qed

lemma keyed_rows_after_merge:
  "keyed_rows P (iter_rows_values (merge_and_write_data P cs df) 4) =
     map (\<lambda>i. (sorted_dates P cs df ! i,
                map (cell_value (merge_and_write_data P cs df))
                  (row_coords (max_column (merge_and_write_data P cs df)) (4 + i))))
       [0..<length (sorted_dates P cs df)]"
  unfolding body_rows_after_merge
proof (rule keyed_rows_dated)
  fix i assume "i \<in> set [0..<length (sorted_dates P cs df)]"
  then have i: "i < length (sorted_dates P cs df)" by simp
  then have "sorted_dates P cs df \<noteq> []" by auto
  from max_column_after_merge[OF this] obtain m where
    m: "max_column (merge_and_write_data P cs df) = Suc m" by (cases "max_column (merge_and_write_data P cs df)") auto
  have "row_coords (Suc m) (4 + i) = (4 + i, 1) # map (\<lambda>c. (4 + i, c)) [Suc 1..<Suc (Suc m)]"
    by (simp add: row_coords_def upt_conv_Cons del: upt_Suc)
  then show "\<exists>rest. map (cell_value (merge_and_write_data P cs df))
               (row_coords (max_column (merge_and_write_data P cs df)) (4 + i))
             = VDate (sorted_dates P cs df ! i) # rest"
    using merge_date_column[OF i] by (simp add: m del: upt_Suc)
qed

lemma map_of_merged_map:
  "map_of (merged_map P cs df) =
     map_of (rev (keyed_rows P (iter_rows_values cs 4))) ++ map_of (rev (fetched_rows df))"
  by (simp add: merged_map_assign map_of_assign_all)

lemma keys_merged_map:
  "fst ` set (merged_map P cs df) =
     fst ` set (keyed_rows P (iter_rows_values cs 4)) \<union> fst ` set (fetched_rows df)"
  by (simp add: merged_map_assign keys_assign_all image_Un)

lemma new_row_nth:
  "j < 7 \<Longrightarrow> new_row f ! j \<noteq> VNone" "length (new_row f) = 7"
  by (auto simp: new_row_def nth_Cons split: nat.splits)

lemma sorted_dates_again:
  "sorted_dates P (merge_and_write_data P cs df) df = sorted_dates P cs df"
proof -
  let ?S = "merge_and_write_data P cs df"
  have "map fst (keyed_rows P (iter_rows_values ?S 4)) = sorted_dates P cs df"
    by (simp add: keyed_rows_after_merge comp_def map_nth)
  then have "fst ` set (keyed_rows P (iter_rows_values ?S 4)) = set (sorted_dates P cs df)"
    by (metis list.set_map)
  moreover have "fst ` set (fetched_rows df) \<subseteq> set (sorted_dates P cs df)"
    by (simp add: sorted_dates_props(3) keys_merged_map)
  ultimately have "set (sorted_dates P ?S df) = set (sorted_dates P cs df)"
    by (auto simp: sorted_dates_props(3) keys_merged_map)
  then show ?thesis
    by (intro sorted_distinct_set_unique) (simp_all add: sorted_dates_props)
qed

lemma map_of_dated_rows:
  assumes "distinct ks" and "i < length ks"
  shows "map_of (rev (map (\<lambda>i. (ks ! i, g i)) [0..<length ks])) (ks ! i) = Some (g i)"
proof (rule map_of_is_SomeI)
  have "map fst (map (\<lambda>i. (ks ! i, g i)) [0..<length ks]) = ks"
    by (simp add: comp_def map_nth)
  then show "distinct (map fst (rev (map (\<lambda>i. (ks ! i, g i)) [0..<length ks])))"
    using assms(1) by (simp add: rev_map[symmetric])
  show "(ks ! i, g i) \<in> set (rev (map (\<lambda>i. (ks ! i, g i)) [0..<length ks]))"
    using assms(2) by auto
qed

lemma merged_row_again:
  assumes i: "i < length (sorted_dates P cs df)"
    and j: "j < length (merged_row P (merge_and_write_data P cs df) df i)"
  shows "merged_row P (merge_and_write_data P cs df) df i ! j
           = cell_value (merge_and_write_data P cs df) (4 + i, Suc j)"
proof -
  let ?S = "merge_and_write_data P cs df"
  let ?ks = "sorted_dates P cs df"
  let ?d = "?ks ! i"
  let ?F = "map_of (rev (fetched_rows df))"
  show ?thesis
  proof (cases "?F ?d")
    case (Some vs)
    then have "(?d, vs) \<in> set (fetched_rows df)" by (auto dest!: map_of_SomeD)
    then obtain f where vs: "vs = new_row f" by (auto dest: fetched_rows_shape)
    have r2: "merged_row P ?S df i = vs"
      by (simp add: merged_row_def sorted_dates_again map_of_merged_map map_add_def Some)
    have r1: "merged_row P cs df i = vs"
      by (simp add: merged_row_def map_of_merged_map map_add_def Some)
    from j r2 vs have "j < 7" by (simp add: new_row_nth)
    then show ?thesis
      using i by (simp add: merge_cell_value r1 r2 vs new_row_nth)
  next
    case None
    let ?g = "\<lambda>i. map (cell_value ?S) (row_coords (max_column ?S) (4 + i))"
    have "map_of (merged_map P ?S df) ?d = map_of (rev (map (\<lambda>i. (?ks ! i, ?g i)) [0..<length ?ks])) ?d"
      by (simp add: map_of_merged_map map_add_def None keyed_rows_after_merge)
    also have "\<dots> = Some (?g i)"
      using sorted_dates_props(2) i by (rule map_of_dated_rows)
    finally have r2: "merged_row P ?S df i = ?g i"
      by (simp add: merged_row_def sorted_dates_again)
    with j have "j < max_column ?S" by (simp add: row_coords_def del: upt_Suc)
    then have "row_coords (max_column ?S) (4 + i) ! j = (4 + i, Suc j)"
      unfolding row_coords_def by (simp del: upt_Suc)
    with j r2 show ?thesis by (simp add: row_coords_def del: upt_Suc)
  qed
qed

lemma merge_idempotent_value:
  "cell_value (merge_and_write_data P (merge_and_write_data P cs df) df) (r, c)
     = cell_value (merge_and_write_data P cs df) (r, c)"
proof -
  let ?S = "merge_and_write_data P cs df"
  let ?n = "length (sorted_dates P cs df)"
  show ?thesis
  proof (cases "4 + ?n \<le> r")
    case True
    then have "cell_value ?S (r, c) = VNone" by (simp add: merge_cell_value)
    with True show ?thesis by (simp add: merge_cell_value[of P ?S] sorted_dates_again)
  next
    case inside: False
    show ?thesis
    proof (cases "4 \<le> r \<and> 1 \<le> c \<and> c \<le> length (merged_row P ?S df (r - 4))")
      case True
      with inside have "r - 4 < ?n" "c - 1 < length (merged_row P ?S df (r - 4))" by auto
      from merged_row_again[OF this] True
      have "merged_row P ?S df (r - 4) ! (c - 1) = cell_value ?S (r, c)" by simp
      with inside show ?thesis by (simp add: merge_cell_value[of P ?S] sorted_dates_again)
    next
      case False
      with inside show ?thesis by (auto simp add: merge_cell_value[of P ?S] sorted_dates_again)
    qed
  qed
qed

lemma max_row_keys_cong: "fst ` set a = fst ` set b \<Longrightarrow> max_row a = max_row b"
proof -
  assume k: "fst ` set a = fst ` set b"
  have "\<And>cs::cells. (\<lambda>(rc, v). fst rc) ` set cs = fst ` fst ` set cs" by force
  moreover have "a = [] \<longleftrightarrow> b = []" using k by (metis image_is_empty set_empty)
  ultimately show ?thesis using k by (simp add: max_row_Max)
qed

lemma max_column_keys_cong: "fst ` set a = fst ` set b \<Longrightarrow> max_column a = max_column b"
proof -
  assume k: "fst ` set a = fst ` set b"
  have "\<And>cs::cells. (\<lambda>(rc, v). snd rc) ` set cs = snd ` fst ` set cs" by force
  moreover have "a = [] \<longleftrightarrow> b = []" using k by (metis image_is_empty set_empty)
  ultimately show ?thesis using k by (simp add: max_column_Max)
qed

lemma merged_row_again_length:
  assumes i: "i < length (sorted_dates P cs df)"
  shows "length (merged_row P (merge_and_write_data P cs df) df i)
           \<le> max_column (merge_and_write_data P cs df)"
proof -
  let ?S = "merge_and_write_data P cs df"
  let ?ks = "sorted_dates P cs df"
  let ?d = "?ks ! i"
  let ?F = "map_of (rev (fetched_rows df))"
  show ?thesis
  proof (cases "?F ?d")
    case (Some vs)
    then have "(?d, vs) \<in> set (fetched_rows df)" by (auto dest!: map_of_SomeD)
    then obtain f where vs: "vs = new_row f" by (auto dest: fetched_rows_shape)
    have r2: "merged_row P ?S df i = vs"
      by (simp add: merged_row_def sorted_dates_again map_of_merged_map map_add_def Some)
    have r1: "merged_row P cs df i = vs"
      by (simp add: merged_row_def map_of_merged_map map_add_def Some)
    have "(4 + i, 7) \<in> fst ` set ?S"
      using i unfolding merge_keys by (simp add: r1 vs new_row_nth)
    then have "7 \<le> max_column ?S" by (rule max_column_ge)
    then show ?thesis by (simp add: r2 vs new_row_nth)
  next
    case None
    let ?g = "\<lambda>i. map (cell_value ?S) (row_coords (max_column ?S) (4 + i))"
    have "map_of (merged_map P ?S df) ?d = map_of (rev (map (\<lambda>i. (?ks ! i, ?g i)) [0..<length ?ks])) ?d"
      by (simp add: map_of_merged_map map_add_def None keyed_rows_after_merge)
    also have "\<dots> = Some (?g i)"
      using sorted_dates_props(2) i by (rule map_of_dated_rows)
    finally have r2: "merged_row P ?S df i = ?g i"
      by (simp add: merged_row_def sorted_dates_again)
    then show ?thesis by (simp add: row_coords_def del: upt_Suc)
  qed
qed

lemma merge_idempotent_keys:
  "fst ` set (merge_and_write_data P cs df) \<subseteq> fst ` set (merge_and_write_data P (merge_and_write_data P cs df) df)"
  "(r, c) \<in> fst ` set (merge_and_write_data P (merge_and_write_data P cs df) df) \<Longrightarrow>
     (r, c) \<in> fst ` set (merge_and_write_data P cs df)
     \<or> (r \<le> max_row (merge_and_write_data P cs df) \<and> c \<le> max_column (merge_and_write_data P cs df)
        \<and> sorted_dates P cs df \<noteq> [])"
proof -
  let ?S = "merge_and_write_data P cs df"
  show "fst ` set ?S \<subseteq> fst ` set (merge_and_write_data P ?S df)"
  proof
    fix rc assume a: "rc \<in> fst ` set ?S"
    obtain r c where rc: "rc = (r, c)" by (cases rc)
    from a rc have "r < 4 + length (sorted_dates P cs df)" unfolding merge_keys by simp
    with a rc show "rc \<in> fst ` set (merge_and_write_data P ?S df)"
      unfolding merge_keys[of P ?S] sorted_dates_again by simp
  qed
  assume "(r, c) \<in> fst ` set (merge_and_write_data P ?S df)"
  then have r: "r < 4 + length (sorted_dates P cs df)"
    and d: "(r, c) \<in> fst ` set ?S
         \<or> (4 \<le> r \<and> r \<le> max_row ?S \<and> 1 \<le> c \<and> c \<le> max_column ?S)
         \<or> (4 \<le> r \<and> 1 \<le> c \<and> c \<le> length (merged_row P ?S df (r - 4)))"
    unfolding merge_keys[of P ?S] sorted_dates_again by auto
  show "(r, c) \<in> fst ` set ?S \<or> (r \<le> max_row ?S \<and> c \<le> max_column ?S \<and> sorted_dates P cs df \<noteq> [])"
  proof (cases "4 \<le> r")
    case True
    with r have ne: "sorted_dates P cs df \<noteq> []" and i: "r - 4 < length (sorted_dates P cs df)" by auto
    have mr: "r \<le> max_row ?S" using merge_max_row(2)[OF ne] r by simp
    from d merged_row_again_length[OF i] max_column_ge[of r c ?S]
    have "c \<le> max_column ?S" by auto
    with mr ne show ?thesis by simp
  next
    case False
    with d show ?thesis by auto
  qed
qed

lemma merge_idempotent_bounds:
  "max_row (merge_and_write_data P (merge_and_write_data P cs df) df) = max_row (merge_and_write_data P cs df)"
  "max_column (merge_and_write_data P (merge_and_write_data P cs df) df) = max_column (merge_and_write_data P cs df)"
proof -
  let ?S = "merge_and_write_data P cs df"
  let ?T = "merge_and_write_data P ?S df"
  have both: "max_row ?T = max_row ?S \<and> max_column ?T = max_column ?S"
  proof (cases "sorted_dates P cs df = []")
    case True
    have sub: "fst ` set ?T \<subseteq> fst ` set ?S"
    proof
      fix rc assume a: "rc \<in> fst ` set ?T"
      obtain r c where rc: "rc = (r, c)" by (cases rc)
      from merge_idempotent_keys(2)[of r c P cs df] a rc True
      show "rc \<in> fst ` set ?S" by simp
    qed
    from sub merge_idempotent_keys(1)[of P cs df] have eq: "fst ` set ?T = fst ` set ?S"
      by (rule subset_antisym)
    show ?thesis using max_row_keys_cong[OF eq] max_column_keys_cong[OF eq] by simp
  next
    case False
    have r: "max_row ?T = max_row ?S"
      using merge_max_row(2)[OF False] merge_max_row(2)[of P ?S df] False
      by (simp add: sorted_dates_again)
    have one: "1 \<le> max_column ?S" by (rule max_column_after_merge[OF False])
    have "sorted_dates P ?S df \<noteq> []" using False by (simp add: sorted_dates_again)
    then have oneT: "1 \<le> max_column ?T" by (rule max_column_after_merge)
    have "max_column ?T \<le> max_column ?S"
    proof (rule max_column_le[OF one])
      fix r c assume "(r, c) \<in> fst ` set ?T"
      from merge_idempotent_keys(2)[OF this] show "c \<le> max_column ?S"
      proof
        assume "(r, c) \<in> fst ` set ?S"
        then show ?thesis by (rule max_column_ge)
      next
        assume "r \<le> max_row ?S \<and> c \<le> max_column ?S \<and> sorted_dates P cs df \<noteq> []"
        then show ?thesis by simp
      qed
    qed
    moreover have "max_column ?S \<le> max_column ?T"
    proof (rule max_column_le[OF oneT])
      fix r c assume "(r, c) \<in> fst ` set ?S"
      with merge_idempotent_keys(1)[of P cs df] have "(r, c) \<in> fst ` set ?T" by (rule rev_subsetD[rotated])
      then show "c \<le> max_column ?T" by (rule max_column_ge)
    qed
    ultimately show ?thesis using r by simp
  qed
  from both show "max_row ?T = max_row ?S" ..
  from both show "max_column ?T = max_column ?S" ..
qed

lemma merge_idempotent_rows:
  "iter_rows_values (merge_and_write_data P (merge_and_write_data P cs df) df) k
     = iter_rows_values (merge_and_write_data P cs df) k"
proof -
  have "cell_value (merge_and_write_data P (merge_and_write_data P cs df) df)
          = cell_value (merge_and_write_data P cs df)"
  proof (rule ext)
    fix rc show "cell_value (merge_and_write_data P (merge_and_write_data P cs df) df) rc
          = cell_value (merge_and_write_data P cs df) rc"
      by (cases rc) (simp add: merge_idempotent_value)
  qed
  then show ?thesis by (simp add: iter_rows_values_def merge_idempotent_bounds)
qed

section \<open>The claims about merge_and_write_data\<close>

text \<open>
  C1, at a failing input. The sheet holds the rows of 2024-01-03 (5-day mean empty) and
  2024-01-04 (5-day mean 15); the fetched record holds 2024-01-02 only. After the merge
  the row of 2024-01-03, which the fetched record does not contain, stands in row 5 and
  its 5-day mean is 15: the empty value of the row is not written (\<open>Worksheet.cell\<close>
  assigns no \<open>None\<close>), so the cell keeps what the row of 2024-01-04 had left there.
\<close>

theorem merge_stale_value_example:
  "cell_value stale_sheet (4, 1) = VDate (2024, 1, 3)
   \<and> cell_value stale_sheet (4, 6) = VNone
   \<and> cell_value (merge_and_write_data (\<lambda>s. None) stale_sheet [row_0102]) (5, 1) = VDate (2024, 1, 3)
   \<and> cell_value (merge_and_write_data (\<lambda>s. None) stale_sheet [row_0102]) (5, 6) = VFloat (Finite 15)"
  by code_simp

text \<open>
  C2. Merging the same fetched record a second time changes no value of the sheet: the
  body rows that \<open>iter_rows\<close> reads from row 4 on are the same list of rows, and every
  coordinate holds the same value.
\<close>

theorem merge_idempotent:
  "iter_rows_values (merge_and_write_data strptime (merge_and_write_data strptime cs df) df) 4
     = iter_rows_values (merge_and_write_data strptime cs df) 4
   \<and> cell_value (merge_and_write_data strptime (merge_and_write_data strptime cs df) df) (r, c)
     = cell_value (merge_and_write_data strptime cs df) (r, c)"
  by (simp add: merge_idempotent_rows merge_idempotent_value)

text \<open>
  C3. After a merge the first column of the body, read from row 4 to the last row, is
  the list of the merged dates as date values, and that list is strictly ascending (so
  no date occurs twice).
\<close>

theorem merge_rows_ascending:
  "body_dates (merge_and_write_data strptime cs df) = map VDate (sorted_dates strptime cs df)
   \<and> sorted_wrt (<) (sorted_dates strptime cs df)"
proof -
  let ?S = "merge_and_write_data strptime cs df"
  let ?ks = "sorted_dates strptime cs df"
  have "body_dates ?S = map VDate ?ks"
  proof (cases "?ks = []")
    case True
    then have "max_row ?S \<le> 3" using merge_max_row(1)[of strptime cs df] by simp
    with True show ?thesis by (simp add: body_dates_def)
  next
    case False
    have "[4..<Suc (max_row ?S)] = [4..<length ?ks + 4]"
      using merge_max_row(2)[OF False] by (simp add: add.commute)
    also have "\<dots> = map (\<lambda>i. i + 4) [0..<length ?ks]" by (simp only: map_add_upt)
    finally have "body_dates ?S = map (\<lambda>i. cell_value ?S (4 + i, 1)) [0..<length ?ks]"
      by (simp add: body_dates_def comp_def add.commute)
    also have "\<dots> = map (\<lambda>i. VDate (?ks ! i)) [0..<length ?ks]"
    proof (rule map_cong[OF refl])
      fix i assume "i \<in> set [0..<length ?ks]"
      then have "i < length ?ks" by simp
      then show "cell_value ?S (4 + i, 1) = VDate (?ks ! i)" by (rule merge_date_column)
    qed
    also have "\<dots> = map VDate (map ((!) ?ks) [0..<length ?ks])"
      by (simp add: comp_def)
    also have "\<dots> = map VDate ?ks"
      by (simp only: map_nth)
    finally show ?thesis .
  qed
  moreover have "sorted_wrt (<) ?ks"
    by (simp add: strict_sorted_iff sorted_dates_props)
  ultimately show ?thesis by simp
qed

text \<open>
  C4. After a merge no cell is left in any row beyond the last written row, which is row
  3 plus the number of merged rows; in particular when the merged set is shorter than
  the body was before.
\<close>

theorem merge_clears_trailing_rows:
  "4 + length (merged_map strptime cs df) \<le> r \<Longrightarrow>
     map_of (merge_and_write_data strptime cs df) (r, c) = None"
  using merge_no_cell_beyond[of strptime cs df r c] by (simp add: sorted_dates_props(4))

theorem merge_clears_trailing_rows_witness:
  "4 + length (merged_map (\<lambda>s. None) shrink_sheet []) \<le> 6
   \<and> length (merged_map (\<lambda>s. None) shrink_sheet []) < max_row shrink_sheet - 3
   \<and> map_of shrink_sheet (6, 2) = Some (VFloat (Finite 12))
   \<and> map_of (merge_and_write_data (\<lambda>s. None) shrink_sheet []) (6, 2) = None"
proof -
  have h: "4 + length (merged_map (\<lambda>s. None) shrink_sheet []) \<le> 6" by code_simp
  have "length (merged_map (\<lambda>s. None) shrink_sheet []) < max_row shrink_sheet - 3" by code_simp
  moreover have "map_of shrink_sheet (6, 2) = Some (VFloat (Finite 12))" by code_simp
  ultimately show ?thesis
    using h merge_clears_trailing_rows [OF h, of 2] by simp
qed




section \<open>The claims about ensure_table_and_chart\<close>

lemma title_differs_always: "title_differs t s"
  by (cases t) simp_all

lemma filter_title_differs: "filter (\<lambda>c. title_differs (title c) s) cs = cs"
  by (simp add: title_differs_always)

text \<open>
  A call that gets past the guard and returns adds its chart and removes none, whatever
  titles the charts of the sheet carry.
\<close>

lemma ensure_keeps_charts:
  assumes "ensure_table_and_chart isdigit duplicate_name ws sheet_name = Inr ws'"
    and "3 \<le> max_row (cells ws)"
  shows "map title (charts ws') = map title (charts ws) @ [Title (sheet_name @ chart_suffix)]"
    and "cells ws' = cells ws"
  using assms
  by (auto simp: ensure_table_and_chart_def Let_def filter_title_differs
      split: list.splits option.splits if_splits)


lemma max_row_one_row: "max_row (cells one_row_sheet) = 4"
  by (simp add: one_row_sheet_def header_only_sheet_def max_row_def)

text \<open>
  C5, at a failing input. On a sheet with the header and one data row the first call
  adds the chart with the derived title; the second call, on the sheet the first one
  returned, leaves that chart in place and adds another one with the same title. The
  comparison of line 332 is between a \<open>Title\<close> object and a string and never finds the
  existing chart.
\<close>

theorem ensure_duplicates_chart_example:
  "(case ensure_table_and_chart ascii_isdigit (\<lambda>n. False) one_row_sheet (ascii ''7203.T_X'') of
      Inl e \<Rightarrow> False
    | Inr ws1 \<Rightarrow>
        map title (charts ws1) = [Title (ascii ''7203.T_X'' @ chart_suffix)]
        \<and> (case ensure_table_and_chart ascii_isdigit (\<lambda>n. False) ws1 (ascii ''7203.T_X'') of
              Inl e \<Rightarrow> False
            | Inr ws2 \<Rightarrow> map title (charts ws2) = [Title (ascii ''7203.T_X'' @ chart_suffix),
                                                    Title (ascii ''7203.T_X'' @ chart_suffix)]))"
proof -
  have t: "tables one_row_sheet = []" and c: "charts one_row_sheet = []"
    by (simp_all add: one_row_sheet_def header_only_sheet_def)
  show ?thesis
    by (simp add: max_row_one_row ensure_table_and_chart_def
        Let_def t c ascii_def replace_char_def ascii_isdigit_def)
qed


section \<open>The claim about a cancelled save\<close>

text \<open>
  C9. The destination file is locked at every attempt; the user asks for a retry \<open>n\<close>
  times and then cancels. The run ends (the result is \<open>Some\<close>), and its final state is
  the initial one except for the interface: the file on the disk is the same, the status
  is "save cancelled" with progress 0, the log has the one new line "the save was
  cancelled", the only dialogs shown are the \<open>n + 1\<close> retry-or-cancel dialogs, and the run
  button is enabled again. Neither the status of a completed run nor the log line of an
  error is shown.
\<close>

theorem finish_run_cancel:
  "finish_run (replicate n (Locked True) @ Locked False # rest) content excel_path st =
     Some (st\<lparr>status_msg := msg_save_cancelled, progress_var := 0,
              log_text := log_text st @ [log_save_cancelled],
              dialogs := dialogs st @ replicate (Suc n) AskRetryCancelSave,
              btn_run_enabled := True\<rparr>)
   \<and> msg_save_cancelled \<noteq> msg_done
   \<and> take (length msg_error) log_save_cancelled \<noteq> msg_error"
proof -
  have "save_workbook_safely (replicate n (Locked True) @ Locked False # rest) content s =
          Some (Inr False, s\<lparr>log_text := log_text s @ [log_save_cancelled],
                              dialogs := dialogs s @ replicate (Suc n) AskRetryCancelSave\<rparr>)" for s
  proof (induction n arbitrary: s)
    case 0 show ?case by (simp add: log_safe_def)
  next
    case (Suc n)
    show ?case by (simp add: Suc.IH replicate_app_Cons_same)
  qed
  then have "finish_run (replicate n (Locked True) @ Locked False # rest) content excel_path st =
     Some (st\<lparr>status_msg := msg_save_cancelled, progress_var := 0,
              log_text := log_text st @ [log_save_cancelled],
              dialogs := dialogs st @ replicate (Suc n) AskRetryCancelSave,
              btn_run_enabled := True\<rparr>)"
    by (simp add: finish_run_def status_safe_def finalize_ui_def)
  moreover have "msg_save_cancelled \<noteq> msg_done"
    by (simp add: msg_save_cancelled_def msg_done_def)
  moreover have "take (length msg_error) log_save_cancelled \<noteq> msg_error"
    by (simp add: msg_error_def log_save_cancelled_def)
  ultimately show ?thesis by simp
qed

section \<open>The claim about colliding identifiers\<close>

text \<open>
  C10. \<open>build_sheet_name\<close> is not injective, by the replacement (the tickers \<open>A:B\<close> and
  \<open>A/B\<close> with the name \<open>X\<close> both give \<open>A_B_X\<close>) and by the truncation (a ticker of 31
  letters and the same ticker with one more letter give the same 31 letters). In a run
  the first instrument of such a pair creates the sheet of that name, and with that
  sheet in the workbook the lookup of the second instrument takes the existing sheet, so
  its rows are merged into the Region of the first.
\<close>

theorem build_sheet_name_collision:
  "(\<exists>t1 n1 t2 n2. t1 \<noteq> t2 \<and> build_sheet_name t1 n1 = build_sheet_name t2 n2
        \<and> choose_sheet [] (build_sheet_name t1 n1) t1 = CreateSheet (build_sheet_name t1 n1)
        \<and> choose_sheet [build_sheet_name t1 n1] (build_sheet_name t2 n2) t2
            = UseExisting (build_sheet_name t1 n1))
   \<and> build_sheet_name (ascii ''A:B'') (ascii ''X'') = ascii ''A_B_X''
   \<and> build_sheet_name (ascii ''A/B'') (ascii ''X'') = ascii ''A_B_X''
   \<and> build_sheet_name (replicate 31 88) (ascii ''N'') = replicate 31 88
   \<and> build_sheet_name (replicate 32 88) (ascii ''N'') = replicate 31 88"
proof -
  have r1: "build_sheet_name (ascii ''A:B'') (ascii ''X'') = ascii ''A_B_X''"
    and r2: "build_sheet_name (ascii ''A/B'') (ascii ''X'') = ascii ''A_B_X''"
    by (simp_all add: build_sheet_name_spec spec_identifier_def ascii_def bad_chars_def
        underscore_def)
  have t1: "build_sheet_name (replicate 31 88) (ascii ''N'') = replicate 31 88"
    and t2: "build_sheet_name (replicate 32 88) (ascii ''N'') = replicate 31 88"
    by (simp_all add: build_sheet_name_spec spec_identifier_def ascii_def bad_chars_def
        underscore_def)
  have "ascii ''A:B'' \<noteq> ascii ''A/B''" by (simp add: ascii_def)
  moreover have "choose_sheet [] (ascii ''A_B_X'') (ascii ''A:B'') = CreateSheet (ascii ''A_B_X'')"
    by (simp add: choose_sheet_def)
  moreover have "choose_sheet [ascii ''A_B_X''] (ascii ''A_B_X'') (ascii ''A/B'')
      = UseExisting (ascii ''A_B_X'')"
    by (simp add: choose_sheet_def)
  ultimately have "\<exists>t1 n1 t2 n2. t1 \<noteq> t2 \<and> build_sheet_name t1 n1 = build_sheet_name t2 n2
        \<and> choose_sheet [] (build_sheet_name t1 n1) t1 = CreateSheet (build_sheet_name t1 n1)
        \<and> choose_sheet [build_sheet_name t1 n1] (build_sheet_name t2 n2) t2
            = UseExisting (build_sheet_name t1 n1)"
    using r1 r2 by metis
  with r1 r2 t1 t2 show ?thesis by simp
qed

end
